theory Spec2Isabelle
  imports Main
begin

section \<open>Python values, exceptions and the two libraries\<close>

text \<open>
  The exceptions the modelled code can raise. \<^verbatim>\<open>bitarray.bitarray(n)\<close> raises
  \<open>OverflowError\<close> for a length outside the index range, \<open>ValueError\<close> for a
  negative length and \<open>MemoryError\<close> when the bits cannot be allocated;
  \<open>ZeroDivisionError\<close> is what \<^verbatim>\<open>%\<close> raises for a zero modulus, \<open>IndexError\<close>
  what indexing a bit array raises out of range, and \<open>TypeError\<close> what a dict
  raises for an unhashable key.
  A result is \<open>Inl\<close> of the exception raised or \<open>Inr\<close> of the value returned.
\<close>

datatype error =
  ValueError | OverflowError | MemoryError | ZeroDivisionError | IndexError | TypeError

text \<open>
  The elements a caller can put into the list \<^verbatim>\<open>passwords\<close>: the list is untyped, and
  the code tests each element with \<^verbatim>\<open>isinstance(password, str)\<close>. The model keeps
  \<^verbatim>\<open>None\<close>, a \<^verbatim>\<open>str\<close>, an \<^verbatim>\<open>int\<close> (a hashable value that is not a
  \<^verbatim>\<open>str\<close>) and a \<^verbatim>\<open>list\<close> (a value that is not hashable). A \<^verbatim>\<open>str\<close> is a
  \<open>string\<close>, each \<open>char\<close> a code point below 256.
\<close>

datatype pyobj = PyNone | PyStr string | PyInt int | PyList "pyobj list"

text \<open>
  \<^verbatim>\<open>mmh3.hash(item, seed)\<close> is a function of the library \<^verbatim>\<open>mmh3\<close>, not of this
  repository: every operation takes it as its first argument, a deterministic
  function from a \<^verbatim>\<open>str\<close> and a seed to an integer of either sign, taken to
  return for every seed of \<^verbatim>\<open>range(num_hashes)\<close>.
\<close>

type_synonym mmh3 = "string \<Rightarrow> int \<Rightarrow> int"

text \<open>Python's \<^verbatim>\<open>a % b\<close> on integers: floored, and an exception when \<open>b = 0\<close>.\<close>

definition py_mod :: "int \<Rightarrow> int \<Rightarrow> error + int" where
  "py_mod a b = (if b = 0 then Inl ZeroDivisionError else Inr (a mod b))"

text \<open>\<^verbatim>\<open>range(n)\<close>: the integers from 0 up to \<open>n - 1\<close>, none when \<open>n \<le> 0\<close>.\<close>

definition py_range :: "int \<Rightarrow> int list" where
  "py_range n = [0..n - 1]"

text \<open>
  Indexing a sequence of length \<open>n\<close> with an integer: an index from \<open>-n\<close> to \<open>-1\<close>
  counts from the end, and an index outside \<open>-n .. n - 1\<close> raises \<open>IndexError\<close>.
  \<open>getitem\<close> is \<^verbatim>\<open>bits[i]\<close> and \<open>setitem\<close> is \<^verbatim>\<open>bits[i] = v\<close> on a bit array.
\<close>

definition py_index :: "'a list \<Rightarrow> int \<Rightarrow> error + nat" where
  "py_index xs i =
     (let n = int (length xs); j = (if i < 0 then i + n else i)
      in if 0 \<le> j \<and> j < n then Inr (nat j) else Inl IndexError)"

definition getitem :: "bool list \<Rightarrow> int \<Rightarrow> error + bool" where
  "getitem bits i = (case py_index bits i of Inl e \<Rightarrow> Inl e | Inr j \<Rightarrow> Inr (bits ! j))"

definition setitem :: "bool list \<Rightarrow> int \<Rightarrow> bool \<Rightarrow> error + bool list" where
  "setitem bits i v = (case py_index bits i of Inl e \<Rightarrow> Inl e | Inr j \<Rightarrow> Inr (bits[j := v]))"

text \<open>
  What the bit-array library depends on outside the program: \<open>ssize_max\<close> is the
  largest index of the Python build (\<open>2^63 - 1\<close> on a 64-bit build), \<open>mem_bits\<close>
  the largest number of bits the allocator grants at the call, and \<open>fresh_bit\<close>
  the content of the memory it hands out.
\<close>

record platform =
  ssize_max :: int
  mem_bits :: int
  fresh_bit :: "nat \<Rightarrow> bool"

text \<open>
  \<^verbatim>\<open>bitarray.bitarray(n)\<close> for an integer \<open>n\<close>: the length is first converted to an
  index, then a negative length is refused, then the bits are allocated; the new
  bits are not initialised. \<^verbatim>\<open>setall(v)\<close> sets every bit to \<open>v\<close>.
\<close>

definition bitarray_new :: "platform \<Rightarrow> int \<Rightarrow> error + bool list" where
  "bitarray_new p n =
     (if n < - ssize_max p - 1 \<or> ssize_max p < n then Inl OverflowError
      else if n < 0 then Inl ValueError
      else if mem_bits p < n then Inl MemoryError
      else Inr (map (fresh_bit p) [0..<nat n]))"

definition setall :: "bool list \<Rightarrow> bool \<Rightarrow> bool list" where
  "setall bits v = map (\<lambda>b. v) bits"

section \<open>BloomFilter\<close>

text \<open>
  The three attributes of a \<^verbatim>\<open>BloomFilter\<close> object (\<open>size_bf\<close> is the attribute
  \<^verbatim>\<open>size\<close>). A bit of \<open>bit_array\<close> is \<open>True\<close> for 1 and \<open>False\<close> for 0.
\<close>

record BloomFilter =
  size_bf :: int
  num_hashes :: int
  bit_array :: "bool list"

text \<open>
  \<^verbatim>\<open>__init__\<close>: stores both arguments as they are, allocates
  \<^verbatim>\<open>bitarray.bitarray(size)\<close> and clears it with \<^verbatim>\<open>setall(0)\<close>. The constructor
  has no check of its own: it fails where the allocation of the bit array raises,
  and then no object is returned.
\<close>

definition init :: "platform \<Rightarrow> int \<Rightarrow> int \<Rightarrow> error + BloomFilter" where
  "init p sz nh =
     (case bitarray_new p sz of
        Inl e \<Rightarrow> Inl e
      | Inr bits \<Rightarrow> Inr \<lparr>size_bf = sz, num_hashes = nh, bit_array = setall bits False\<rparr>)"

text \<open>
  A method takes the object and returns the object after the call together with the
  value returned or the exception raised.

  \<^verbatim>\<open>_hashes\<close>: the list comprehension over \<^verbatim>\<open>range(self.num_hashes)\<close>, one
  \<^verbatim>\<open>mmh3.hash(item, seed) % self.size\<close> per seed, in order.
\<close>

fun hashes_of :: "mmh3 \<Rightarrow> int \<Rightarrow> string \<Rightarrow> int list \<Rightarrow> error + int list" where
  "hashes_of h sz item [] = Inr []"
| "hashes_of h sz item (seed # seeds) =
     (case py_mod (h item seed) sz of
        Inl e \<Rightarrow> Inl e
      | Inr i \<Rightarrow> (case hashes_of h sz item seeds of
                   Inl e \<Rightarrow> Inl e
                 | Inr rest \<Rightarrow> Inr (i # rest)))"

definition hashes :: "mmh3 \<Rightarrow> BloomFilter \<Rightarrow> string \<Rightarrow> BloomFilter \<times> (error + int list)" where
  "hashes h self item = (self, hashes_of h (size_bf self) item (py_range (num_hashes self)))"

text \<open>
  \<^verbatim>\<open>add\<close>: the loop \<^verbatim>\<open>self.bit_array[hash_value] = 1\<close> over the list that
  \<^verbatim>\<open>_hashes\<close> returned. An assignment that raises leaves the earlier ones done.
\<close>

fun set_bits :: "bool list \<Rightarrow> int list \<Rightarrow> bool list \<times> (error + unit)" where
  "set_bits bits [] = (bits, Inr ())"
| "set_bits bits (i # rest) =
     (case setitem bits i True of
        Inl e \<Rightarrow> (bits, Inl e)
      | Inr bits' \<Rightarrow> set_bits bits' rest)"

definition add :: "mmh3 \<Rightarrow> BloomFilter \<Rightarrow> string \<Rightarrow> BloomFilter \<times> (error + unit)" where
  "add h self item =
     (case hashes h self item of
        (self1, Inl e) \<Rightarrow> (self1, Inl e)
      | (self1, Inr idxs) \<Rightarrow>
          (case set_bits (bit_array self1) idxs of
             (bits, r) \<Rightarrow> (self1\<lparr>bit_array := bits\<rparr>, r)))"

text \<open>
  \<^verbatim>\<open>check\<close>: \<^verbatim>\<open>all(...)\<close> over a generator reads the bits in the order of the
  list that \<^verbatim>\<open>_hashes\<close> returned and stops at the first bit that is 0.
\<close>

fun all_bits :: "bool list \<Rightarrow> int list \<Rightarrow> error + bool" where
  "all_bits bits [] = Inr True"
| "all_bits bits (i # rest) =
     (case getitem bits i of
        Inl e \<Rightarrow> Inl e
      | Inr b \<Rightarrow> (if b then all_bits bits rest else Inr False))"

definition check :: "mmh3 \<Rightarrow> BloomFilter \<Rightarrow> string \<Rightarrow> BloomFilter \<times> (error + bool)" where
  "check h self item =
     (case hashes h self item of
        (self1, Inl e) \<Rightarrow> (self1, Inl e)
      | (self1, Inr idxs) \<Rightarrow> (self1, all_bits (bit_array self1) idxs))"

section \<open>check-password-uniqueness\<close>

text \<open>
  The three status strings the function stores, in the order of the source's branches:
  \<open>Invalid\<close> (the string for an incorrect password), \<open>AlreadyUsed\<close> (already used)
  and \<open>Unique\<close> (unique).
\<close>

datatype status = Invalid | AlreadyUsed | Unique

text \<open>
  \<^verbatim>\<open>str.isspace\<close> on one code point below 256, and \<^verbatim>\<open>str.strip()\<close>, which removes
  the whitespace at both ends.
\<close>

definition isspace :: "char \<Rightarrow> bool" where
  "isspace c = (of_char c \<in> {9, 10, 11, 12, 13, 28, 29, 30, 31, 32, 133, 160 :: nat})"

definition strip :: "string \<Rightarrow> string" where
  "strip s = rev (dropWhile isspace (rev (dropWhile isspace s)))"

text \<open>
  The result is a \<^verbatim>\<open>dict\<close>: an association list in insertion order. Storing under
  a key that is present replaces its value where it stands; storing under a key that
  is not hashable raises \<open>TypeError\<close>.
\<close>

fun hashable :: "pyobj \<Rightarrow> bool" where
  "hashable (PyList xs) = False"
| "hashable x = True"

fun dict_store :: "('k \<times> 'v) list \<Rightarrow> 'k \<Rightarrow> 'v \<Rightarrow> ('k \<times> 'v) list" where
  "dict_store [] k v = [(k, v)]"
| "dict_store ((k', v') # d) k v =
     (if k' = k then (k', v) # d else (k', v') # dict_store d k v)"

definition dict_setitem ::
  "(pyobj \<times> status) list \<Rightarrow> pyobj \<Rightarrow> status \<Rightarrow> error + (pyobj \<times> status) list" where
  "dict_setitem d k v = (if hashable k then Inr (dict_store d k v) else Inl TypeError)"

text \<open>
  One pass of the loop body of \<^verbatim>\<open>check_password_uniqueness\<close> for one element of
  \<^verbatim>\<open>passwords\<close>: the filter and the dict before, the filter after and the dict after
  or the exception raised.
\<close>

definition invalid_password :: "pyobj \<Rightarrow> bool" where
  "invalid_password password =
     (case password of PyStr s \<Rightarrow> strip s = [] | _ \<Rightarrow> True)"

fun str_of :: "pyobj \<Rightarrow> string" where
  "str_of (PyStr s) = s"
| "str_of x = []"

definition classify_step ::
  "mmh3 \<Rightarrow> BloomFilter \<Rightarrow> (pyobj \<times> status) list \<Rightarrow> pyobj
     \<Rightarrow> BloomFilter \<times> (error + (pyobj \<times> status) list)" where
  "classify_step h bf results password =
     (if invalid_password password then (bf, dict_setitem results password Invalid)
      else
        (case check h bf (str_of password) of
           (bf1, Inl e) \<Rightarrow> (bf1, Inl e)
         | (bf1, Inr True) \<Rightarrow> (bf1, dict_setitem results password AlreadyUsed)
         | (bf1, Inr False) \<Rightarrow>
             (case dict_setitem results password Unique of
                Inl e \<Rightarrow> (bf1, Inl e)
              | Inr results1 \<Rightarrow>
                  (case add h bf1 (str_of password) of
                     (bf2, Inl e) \<Rightarrow> (bf2, Inl e)
                   | (bf2, Inr u) \<Rightarrow> (bf2, Inr results1)))))"

fun classify_loop ::
  "mmh3 \<Rightarrow> BloomFilter \<Rightarrow> (pyobj \<times> status) list \<Rightarrow> pyobj list
     \<Rightarrow> BloomFilter \<times> (error + (pyobj \<times> status) list)" where
  "classify_loop h bf results [] = (bf, Inr results)"
| "classify_loop h bf results (password # rest) =
     (case classify_step h bf results password of
        (bf1, Inl e) \<Rightarrow> (bf1, Inl e)
      | (bf1, Inr results1) \<Rightarrow> classify_loop h bf1 results1 rest)"

definition check_password_uniqueness ::
  "mmh3 \<Rightarrow> BloomFilter \<Rightarrow> pyobj list \<Rightarrow> BloomFilter \<times> (error + (pyobj \<times> status) list)" where
  "check_password_uniqueness h bloom_filter passwords = classify_loop h bloom_filter [] passwords"

section \<open>Filter states and sequences of calls\<close>

text \<open>
  The state \<^verbatim>\<open>__init__\<close> leaves behind when both arguments are positive, and that
  every method keeps: a positive \<^verbatim>\<open>size\<close>, a positive \<^verbatim>\<open>num_hashes\<close>, and a bit
  array of \<^verbatim>\<open>size\<close> bits.
\<close>

definition valid :: "BloomFilter \<Rightarrow> bool" where
  "valid bf = (0 < size_bf bf \<and> 0 < num_hashes bf \<and> int (length (bit_array bf)) = size_bf bf)"

text \<open>
  The positions \<^verbatim>\<open>_hashes\<close> computes for an item when \<^verbatim>\<open>size\<close> is not zero, in
  closed form: one per seed of \<^verbatim>\<open>range(num_hashes)\<close>.
\<close>

definition indices :: "mmh3 \<Rightarrow> BloomFilter \<Rightarrow> string \<Rightarrow> int list" where
  "indices h bf item = map (\<lambda>seed. h item seed mod size_bf bf) (py_range (num_hashes bf))"

text \<open>
  \<open>bits_grow bf bf'\<close>: the later state \<open>bf'\<close> has the parameters and the length of
  \<open>bf\<close>, and every bit that is 1 in \<open>bf\<close> is 1 in \<open>bf'\<close>. \<open>set_positions\<close> is
  the set of positions whose bit is 1.
\<close>

definition bits_grow :: "BloomFilter \<Rightarrow> BloomFilter \<Rightarrow> bool" where
  "bits_grow bf bf' =
     (size_bf bf' = size_bf bf \<and> num_hashes bf' = num_hashes bf \<and>
      length (bit_array bf') = length (bit_array bf) \<and>
      list_all (\<lambda>k. bit_array bf ! k \<longrightarrow> bit_array bf' ! k) [0..<length (bit_array bf)])"

definition set_positions :: "BloomFilter \<Rightarrow> nat set" where
  "set_positions bf = set (filter (\<lambda>k. bit_array bf ! k) [0..<length (bit_array bf)])"

text \<open>
  A caller's calls on one filter: \<^verbatim>\<open>add\<close>, \<^verbatim>\<open>check\<close> and
  \<^verbatim>\<open>check_password_uniqueness\<close>, in any order. \<open>exec_op\<close> is the filter after one
  call, whatever the call returned or raised (a caller may catch the exception and
  go on), and \<open>exec_ops\<close> the filter after a sequence of calls.
\<close>

datatype operation = Add string | Check string | Classify "pyobj list"

fun exec_op :: "mmh3 \<Rightarrow> BloomFilter \<Rightarrow> operation \<Rightarrow> BloomFilter" where
  "exec_op h bf (Add item) = fst (add h bf item)"
| "exec_op h bf (Check item) = fst (check h bf item)"
| "exec_op h bf (Classify passwords) = fst (check_password_uniqueness h bf passwords)"

definition exec_ops :: "mmh3 \<Rightarrow> BloomFilter \<Rightarrow> operation list \<Rightarrow> BloomFilter" where
  "exec_ops h bf ops = foldl (exec_op h) bf ops"

section \<open>The methods on a filter as constructed\<close>

lemma length_py_range: "length (py_range n) = nat n"
  by (simp add: py_range_def)

lemma hashes_of_ok:
  "sz \<noteq> 0 \<Longrightarrow> hashes_of h sz item seeds = Inr (map (\<lambda>seed. h item seed mod sz) seeds)"
  by (induction seeds) (simp_all add: py_mod_def)

lemma hashes_ok: "size_bf bf \<noteq> 0 \<Longrightarrow> hashes h bf item = (bf, Inr (indices h bf item))"
  by (simp add: hashes_def indices_def hashes_of_ok)

lemma indices_range:
  "0 < size_bf bf \<Longrightarrow> i \<in> set (indices h bf item) \<Longrightarrow> 0 \<le> i \<and> i < size_bf bf"
  by (auto simp: indices_def)

lemma indices_valid:
  "valid bf \<Longrightarrow> i \<in> set (indices h bf item) \<Longrightarrow> 0 \<le> i \<and> i < int (length (bit_array bf))"
  using indices_range [of bf i h item] by (simp add: valid_def)

lemma py_index_ok: "0 \<le> i \<Longrightarrow> i < int (length xs) \<Longrightarrow> py_index xs i = Inr (nat i)"
  by (simp add: py_index_def Let_def)

lemma set_bits_ok:
  "\<forall>i\<in>set idxs. 0 \<le> i \<and> i < int (length bits) \<Longrightarrow>
   set_bits bits idxs = (map (\<lambda>k. bits ! k \<or> int k \<in> set idxs) [0..<length bits], Inr ())"
proof (induction idxs arbitrary: bits)
  case Nil
  then show ?case by (simp add: map_nth)
next
  case (Cons i rest)
  have i: "0 \<le> i" "i < int (length bits)" using Cons.prems by simp_all
  have step: "setitem bits i True = Inr (bits[nat i := True])"
    using i by (simp add: setitem_def py_index_ok)
  have rest: "\<forall>j\<in>set rest. 0 \<le> j \<and> j < int (length (bits[nat i := True]))"
    using Cons.prems by simp
  have "map (\<lambda>k. bits[nat i := True] ! k \<or> int k \<in> set rest) [0..<length bits]
        = map (\<lambda>k. bits ! k \<or> int k \<in> set (i # rest)) [0..<length bits]"
    using i by (auto simp: nth_list_update)
  then show ?case
    using Cons.IH [OF rest] step by simp
qed

lemma all_bits_ok:
  "\<forall>i\<in>set idxs. 0 \<le> i \<and> i < int (length bits) \<Longrightarrow>
   all_bits bits idxs = Inr (\<forall>i\<in>set idxs. bits ! nat i)"
  by (induction idxs) (auto simp: getitem_def py_index_ok)

lemma add_ok:
  assumes "valid bf"
  shows "add h bf item =
    (bf\<lparr>bit_array := map (\<lambda>k. bit_array bf ! k \<or> int k \<in> set (indices h bf item))
                         [0..<length (bit_array bf)]\<rparr>, Inr ())"
proof -
  have "\<forall>i\<in>set (indices h bf item). 0 \<le> i \<and> i < int (length (bit_array bf))"
    using assms indices_valid by blast
  then show ?thesis
    using assms by (simp add: add_def hashes_ok valid_def set_bits_ok)
qed

lemma check_ok:
  assumes "valid bf"
  shows "check h bf item = (bf, Inr (\<forall>i\<in>set (indices h bf item). bit_array bf ! nat i))"
proof -
  have "\<forall>i\<in>set (indices h bf item). 0 \<le> i \<and> i < int (length (bit_array bf))"
    using assms indices_valid by blast
  then show ?thesis
    using assms by (simp add: check_def hashes_ok valid_def all_bits_ok)
qed

lemma bits_grow_iff:
  "bits_grow bf bf' \<longleftrightarrow>
     size_bf bf' = size_bf bf \<and> num_hashes bf' = num_hashes bf \<and>
     length (bit_array bf') = length (bit_array bf) \<and>
     (\<forall>k<length (bit_array bf). bit_array bf ! k \<longrightarrow> bit_array bf' ! k)"
  by (auto simp: bits_grow_def list_all_iff)

lemma bits_grow_refl: "bits_grow bf bf"
  by (simp add: bits_grow_iff)

lemma bits_grow_trans: "bits_grow a b \<Longrightarrow> bits_grow b c \<Longrightarrow> bits_grow a c"
  by (simp add: bits_grow_iff)

lemma setitem_True_grows:
  assumes "setitem bits i True = Inr bits'"
  shows "length bits' = length bits \<and> (\<forall>k<length bits. bits ! k \<longrightarrow> bits' ! k)"
proof (cases "py_index bits i")
  case (Inl e)
  then show ?thesis using assms by (simp add: setitem_def)
next
  case (Inr j)
  then have b: "bits' = bits[j := True]" using assms by (simp add: setitem_def)
  have "bits[j := True] ! k" if "k < length bits" "bits ! k" for k
    using that by (cases "k = j") simp_all
  then show ?thesis using b by simp
qed

lemma set_bits_grows:
  "set_bits bits idxs = (bits', r) \<Longrightarrow>
   length bits' = length bits \<and> (\<forall>k<length bits. bits ! k \<longrightarrow> bits' ! k)"
proof (induction idxs arbitrary: bits)
  case Nil
  then show ?case by simp
next
  case (Cons i rest)
  show ?case
  proof (cases "setitem bits i True")
    case (Inl e)
    then show ?thesis using Cons.prems by simp
  next
    case (Inr bits1)
    then have "set_bits bits1 rest = (bits', r)" using Cons.prems by simp
    then show ?thesis
      using Cons.IH [of bits1] setitem_True_grows [OF Inr] by simp
  qed
qed

lemma fst_hashes: "fst (hashes h bf item) = bf"
  by (simp add: hashes_def)

lemma fst_check: "fst (check h bf item) = bf"
  by (simp add: check_def hashes_def split: sum.splits)

lemma add_grows: "bits_grow bf (fst (add h bf item))"
proof (cases "hashes_of h (size_bf bf) item (py_range (num_hashes bf))")
  case (Inl e)
  then show ?thesis by (simp add: add_def hashes_def bits_grow_refl)
next
  case (Inr idxs)
  obtain bits' r where sb: "set_bits (bit_array bf) idxs = (bits', r)"
    by (cases "set_bits (bit_array bf) idxs")
  then show ?thesis
    using Inr set_bits_grows [OF sb] by (simp add: add_def hashes_def bits_grow_iff)
qed

lemma classify_step_grows: "bits_grow bf (fst (classify_step h bf results password))"
proof (cases "invalid_password password")
  case True
  then show ?thesis by (simp add: classify_step_def bits_grow_refl)
next
  case False
  obtain r where c: "check h bf (str_of password) = (bf, r)"
    using fst_check [of h bf "str_of password"] by (cases "check h bf (str_of password)") simp
  show ?thesis
  proof (cases r)
    case (Inl e)
    then show ?thesis using False c by (simp add: classify_step_def bits_grow_refl)
  next
    case (Inr b)
    show ?thesis
    proof (cases b)
      case True
      then show ?thesis using False c Inr by (simp add: classify_step_def bits_grow_refl)
    next
      case notb: False
      show ?thesis
      proof (cases "dict_setitem results password Unique")
        case (Inl e)
        then show ?thesis using False c Inr notb by (simp add: classify_step_def bits_grow_refl)
      next
        case (Inr results1)
        obtain bf2 r2 where a: "add h bf (str_of password) = (bf2, r2)"
          by (cases "add h bf (str_of password)")
        then have "bits_grow bf bf2" using add_grows [of bf h "str_of password"] by simp
        then show ?thesis
          using False c \<open>r = Inr b\<close> notb Inr a
          by (cases r2) (simp_all add: classify_step_def)
      qed
    qed
  qed
qed

lemma classify_loop_grows: "bits_grow bf (fst (classify_loop h bf results passwords))"
proof (induction passwords arbitrary: bf results)
  case Nil
  then show ?case by (simp add: bits_grow_refl)
next
  case (Cons password rest)
  obtain bf1 r where s: "classify_step h bf results password = (bf1, r)"
    by (cases "classify_step h bf results password")
  then have g: "bits_grow bf bf1" using classify_step_grows [of bf h results password] by simp
  show ?case
  proof (cases r)
    case (Inl e)
    then show ?thesis using s g by simp
  next
    case (Inr results1)
    then show ?thesis
      using s g Cons.IH [of bf1 results1] by (simp add: bits_grow_trans)
  qed
qed

lemma exec_op_grows: "bits_grow bf (exec_op h bf op)"
  by (cases op) (simp_all add: add_grows fst_check bits_grow_refl
      check_password_uniqueness_def classify_loop_grows)

lemma exec_ops_grows: "bits_grow bf (exec_ops h bf ops)"
  unfolding exec_ops_def
proof (induction ops arbitrary: bf)
  case Nil
  then show ?case by (simp add: bits_grow_refl)
next
  case (Cons op ops)
  then show ?case
    using bits_grow_trans [OF exec_op_grows [of bf h op] Cons.IH [of "exec_op h bf op"]] by simp
qed

lemma exec_ops_append: "exec_ops h bf (ops1 @ ops2) = exec_ops h (exec_ops h bf ops1) ops2"
  by (simp add: exec_ops_def)

lemma bits_grow_positions: "bits_grow bf bf' \<Longrightarrow> set_positions bf \<subseteq> set_positions bf'"
  by (auto simp: bits_grow_iff set_positions_def)

lemma bits_grow_valid: "valid bf \<Longrightarrow> bits_grow bf bf' \<Longrightarrow> valid bf'"
  by (simp add: bits_grow_iff valid_def)

lemma bits_grow_indices: "bits_grow bf bf' \<Longrightarrow> indices h bf' item = indices h bf item"
  by (simp add: bits_grow_iff indices_def)

lemma check_True_grows:
  assumes "valid bf" and "bits_grow bf bf'" and "snd (check h bf item) = Inr True"
  shows "snd (check h bf' item) = Inr True"
proof -
  have v': "valid bf'" using assms(1,2) by (rule bits_grow_valid)
  have all: "\<forall>i\<in>set (indices h bf item). bit_array bf ! nat i"
    using assms(1,3) by (simp add: check_ok)
  have "bit_array bf' ! nat i" if "i \<in> set (indices h bf item)" for i
  proof -
    have "0 \<le> i \<and> i < int (length (bit_array bf))" using assms(1) that by (rule indices_valid)
    then have "nat i < length (bit_array bf)" by (simp add: nat_less_iff)
    then show ?thesis using all that assms(2) by (simp add: bits_grow_iff)
  qed
  then show ?thesis
    using v' by (simp add: check_ok bits_grow_indices [OF assms(2)])
qed

lemma check_after_add:
  assumes "valid bf"
  shows "snd (check h (fst (add h bf item)) item) = Inr True"
proof -
  let ?bf1 = "fst (add h bf item)"
  have v1: "valid ?bf1" using assms add_grows by (rule bits_grow_valid)
  have idx: "indices h ?bf1 item = indices h bf item"
    using add_grows by (rule bits_grow_indices)
  have "bit_array ?bf1 ! nat i" if "i \<in> set (indices h bf item)" for i
  proof -
    have "0 \<le> i \<and> i < int (length (bit_array bf))" using assms that by (rule indices_valid)
    then have "nat i < length (bit_array bf)" "int (nat i) = i" by (simp_all add: nat_less_iff)
    then show ?thesis using that assms by (simp add: add_ok)
  qed
  then show ?thesis using v1 by (simp add: check_ok idx)
qed

lemma exec_ops_valid: "valid bf \<Longrightarrow> valid (exec_ops h bf ops)"
  by (rule bits_grow_valid [OF _ exec_ops_grows])

section \<open>Adding twice\<close>

lemma py_index_length: "length xs = length ys \<Longrightarrow> py_index xs i = py_index ys i"
  by (simp add: py_index_def)

lemma py_index_less: "py_index xs i = Inr j \<Longrightarrow> j < length xs"
  by (auto simp: py_index_def Let_def nat_less_iff split: if_splits)

lemma set_bits_again:
  "set_bits bits idxs = (bits', r) \<Longrightarrow> set_bits bits' idxs = (bits', r)"
proof (induction idxs arbitrary: bits)
  case Nil
  then show ?case by simp
next
  case (Cons i rest)
  show ?case
  proof (cases "py_index bits i")
    case (Inl e)
    then have "bits' = bits" "r = Inl e" using Cons.prems by (simp_all add: setitem_def)
    then show ?thesis using Inl by (simp add: setitem_def)
  next
    case (Inr j)
    let ?bits1 = "bits[j := True]"
    have tail: "set_bits ?bits1 rest = (bits', r)"
      using Cons.prems Inr by (simp add: setitem_def)
    have j: "j < length bits" using Inr by (rule py_index_less)
    have g: "length bits' = length ?bits1 \<and> (\<forall>k<length ?bits1. ?bits1 ! k \<longrightarrow> bits' ! k)"
      using tail by (rule set_bits_grows)
    then have "bits' ! j" using j by simp
    then have same: "bits'[j := True] = bits'"
      by (metis list_update_id)
    have "py_index bits' i = Inr j"
      using Inr g py_index_length [of bits' bits i] by simp
    then show ?thesis
      using same Cons.IH [OF tail] by (simp add: setitem_def)
  qed
qed

lemma add_again: "add h (fst (add h bf item)) item = add h bf item"
proof (cases "hashes_of h (size_bf bf) item (py_range (num_hashes bf))")
  case (Inl e)
  then show ?thesis by (simp add: add_def hashes_def)
next
  case (Inr idxs)
  obtain bits' r where sb: "set_bits (bit_array bf) idxs = (bits', r)"
    by (cases "set_bits (bit_array bf) idxs")
  have "set_bits bits' idxs = (bits', r)" using sb by (rule set_bits_again)
  then show ?thesis using Inr sb by (simp add: add_def hashes_def)
qed

section \<open>The loop body of check-password-uniqueness\<close>

lemma bitarray_new_Inr:
  "bitarray_new p n = Inr bits \<Longrightarrow>
   0 \<le> n \<and> n \<le> ssize_max p \<and> n \<le> mem_bits p \<and> length bits = nat n"
  by (auto simp: bitarray_new_def split: if_splits)

lemma setall_replicate: "setall bits v = replicate (length bits) v"
  by (simp add: setall_def map_replicate_const)

lemma init_Inr:
  assumes "init p sz nh = Inr bf"
  shows "0 \<le> sz \<and> sz \<le> ssize_max p \<and> sz \<le> mem_bits p \<and>
         bf = \<lparr>size_bf = sz, num_hashes = nh, bit_array = replicate (nat sz) False\<rparr>"
proof (cases "bitarray_new p sz")
  case (Inl e)
  then show ?thesis using assms by (simp add: init_def)
next
  case (Inr bits)
  then show ?thesis
    using assms bitarray_new_Inr [OF Inr] by (auto simp: init_def setall_replicate)
qed

lemma init_valid:
  "0 < sz \<Longrightarrow> 0 < nh \<Longrightarrow> init p sz nh = Inr bf \<Longrightarrow> valid bf \<and> list_all Not (bit_array bf)"
  using init_Inr [of p sz nh bf] by (auto simp: valid_def list_all_iff)

lemma zero_in_py_range: "0 < n \<Longrightarrow> 0 \<in> set (py_range n)"
  by (simp add: py_range_def)

lemma check_no_bits:
  assumes "valid bf" and "list_all Not (bit_array bf)"
  shows "check h bf item = (bf, Inr False)"
proof -
  let ?i = "h item 0 mod size_bf bf"
  have mem: "?i \<in> set (indices h bf item)"
    using assms(1) zero_in_py_range [of "num_hashes bf"] by (simp add: indices_def valid_def)
  then have "0 \<le> ?i \<and> ?i < int (length (bit_array bf))"
    using assms(1) by (simp add: indices_valid)
  then have "nat ?i < length (bit_array bf)" by (simp add: nat_less_iff)
  then have "\<not> bit_array bf ! nat ?i"
    using assms(2) by (simp add: list_all_length)
  then have "\<not> (\<forall>i\<in>set (indices h bf item). bit_array bf ! nat i)"
    using mem by blast
  then show ?thesis using assms(1) by (simp add: check_ok)
qed

lemma classify_step_invalid:
  "invalid_password c \<Longrightarrow> hashable c \<Longrightarrow>
   classify_step h bf results c = (bf, Inr (dict_store results c Invalid))"
  by (simp add: classify_step_def dict_setitem_def)

lemma classify_step_unhashable:
  "\<not> hashable c \<Longrightarrow> classify_step h bf results c = (bf, Inl TypeError)"
  by (cases c) (simp_all add: classify_step_def dict_setitem_def invalid_password_def)

lemma classify_step_used:
  assumes "valid bf" and "strip s \<noteq> []" and "snd (check h bf s) = Inr True"
  shows "classify_step h bf results (PyStr s) = (bf, Inr (dict_store results (PyStr s) AlreadyUsed))"
proof -
  have "check h bf s = (bf, Inr True)"
    using assms(3) fst_check [of h bf s] by (cases "check h bf s") simp
  then show ?thesis
    using assms(2) by (simp add: classify_step_def invalid_password_def dict_setitem_def)
qed

lemma classify_step_unique:
  assumes "valid bf" and "strip s \<noteq> []" and "snd (check h bf s) = Inr False"
  shows "classify_step h bf results (PyStr s) =
           (fst (add h bf s), Inr (dict_store results (PyStr s) Unique))"
proof -
  have c: "check h bf s = (bf, Inr False)"
    using assms(3) fst_check [of h bf s] by (cases "check h bf s") simp
  have a: "add h bf s = (fst (add h bf s), Inr ())"
    using assms(1) by (simp add: add_ok)
  show ?thesis
    using assms(2) c by (simp add: classify_step_def invalid_password_def dict_setitem_def)
      (subst a, simp)
qed

lemma classify_example:
  assumes "0 < sz" and "0 < nh" and "init p sz nh = Inr bf"
  shows "check_password_uniqueness h bf [PyNone, PyStr '''', PyStr ''   '', PyStr ''ok''] =
    (fst (add h bf ''ok''),
     Inr [(PyNone, Invalid), (PyStr '''', Invalid), (PyStr ''   '', Invalid), (PyStr ''ok'', Unique)])"
proof -
  have v: "valid bf" and z: "list_all Not (bit_array bf)"
    using init_valid [OF assms] by simp_all
  have s1: "classify_step h bf [] PyNone = (bf, Inr [(PyNone, Invalid)])"
    by (simp add: classify_step_invalid invalid_password_def)
  have s2: "classify_step h bf [(PyNone, Invalid)] (PyStr '''')
              = (bf, Inr [(PyNone, Invalid), (PyStr '''', Invalid)])"
    by (simp add: classify_step_invalid invalid_password_def strip_def)
  have s3: "classify_step h bf [(PyNone, Invalid), (PyStr '''', Invalid)] (PyStr ''   '')
              = (bf, Inr [(PyNone, Invalid), (PyStr '''', Invalid), (PyStr ''   '', Invalid)])"
    by (simp add: classify_step_invalid invalid_password_def strip_def isspace_def)
  have ok: "strip ''ok'' \<noteq> []" by (simp add: strip_def isspace_def)
  have s4: "classify_step h bf [(PyNone, Invalid), (PyStr '''', Invalid), (PyStr ''   '', Invalid)]
                (PyStr ''ok'')
              = (fst (add h bf ''ok''),
                 Inr [(PyNone, Invalid), (PyStr '''', Invalid), (PyStr ''   '', Invalid),
                      (PyStr ''ok'', Unique)])"
    using classify_step_unique [OF v ok, of h] check_no_bits [OF v z, of h "''ok''"] by simp
  show ?thesis
    by (simp add: check_password_uniqueness_def s1 s2 s3 s4)
qed

section \<open>The claims\<close>

text \<open>
  Claim C1 (no false negatives). On a filter with positive \<^verbatim>\<open>size\<close> and
  \<^verbatim>\<open>num_hashes\<close>, after \<^verbatim>\<open>add(x)\<close> and any further calls of \<^verbatim>\<open>add\<close>,
  \<^verbatim>\<open>check\<close> and \<^verbatim>\<open>check_password_uniqueness\<close> (nothing clears a bit),
  \<^verbatim>\<open>check(x)\<close> returns \<^verbatim>\<open>True\<close>, for every string \<open>x\<close> and every hash function.
\<close>

theorem no_false_negatives:
  "valid bf \<Longrightarrow> snd (check h (exec_ops h (fst (add h bf x)) ops) x) = Inr True"
proof -
  assume v: "valid bf"
  let ?bf1 = "fst (add h bf x)"
  have v1: "valid ?bf1" using v add_grows by (rule bits_grow_valid)
  have "snd (check h ?bf1 x) = Inr True" using v by (rule check_after_add)
  with v1 exec_ops_grows show ?thesis by (rule check_True_grows)
qed

text \<open>
  The theorem at a filter of 10 bits and 3 hashes, with a hash function whose values
  are negative.
\<close>

theorem no_false_negatives_witness:
  "valid \<lparr>size_bf = 10, num_hashes = 3, bit_array = replicate 10 False\<rparr> \<and>
   snd (check (\<lambda>item seed. seed - 7 * int (length item))
         (exec_ops (\<lambda>item seed. seed - 7 * int (length item))
            (fst (add (\<lambda>item seed. seed - 7 * int (length item))
                    \<lparr>size_bf = 10, num_hashes = 3, bit_array = replicate 10 False\<rparr> ''abc''))
            [Add ''xyz'', Check ''abc'', Classify [PyStr ''pw'', PyNone], Add ''q''])
         ''abc'') = Inr True"
proof -
  have v: "valid \<lparr>size_bf = 10, num_hashes = 3, bit_array = replicate 10 False\<rparr>"
    by (simp add: valid_def)
  show ?thesis
    using v no_false_negatives [OF v] by simp
qed




text \<open>
  Claim C3 (membership test). On a filter with positive \<^verbatim>\<open>size\<close> and
  \<^verbatim>\<open>num_hashes\<close>, \<^verbatim>\<open>_hashes(item)\<close> returns the \<^verbatim>\<open>num_hashes\<close> positions
  \<open>indices\<close>, and \<^verbatim>\<open>check(item)\<close> returns \<^verbatim>\<open>True\<close> if the bit at every one of
  these positions is 1 and \<^verbatim>\<open>False\<close> otherwise.
\<close>

theorem check_iff_all_set:
  "valid bf \<Longrightarrow>
   snd (hashes h bf item) = Inr (indices h bf item) \<and>
   length (indices h bf item) = nat (num_hashes bf) \<and>
   snd (check h bf item) = Inr (\<forall>i\<in>set (indices h bf item). bit_array bf ! nat i)"
  by (simp add: hashes_ok check_ok valid_def indices_def length_py_range)

text \<open>
  The theorem at a filter of 4 bits with bits 0 and 3 set: the positions of
  \<open>''abc''\<close> are 3 and 0, both set, and the positions of \<open>''ab''\<close> are 2 and 3.
\<close>

theorem check_iff_all_set_witness:
  "valid \<lparr>size_bf = 4, num_hashes = 2, bit_array = [True, False, False, True]\<rparr> \<and>
   snd (hashes (\<lambda>item seed. seed - 7 * int (length item))
          \<lparr>size_bf = 4, num_hashes = 2, bit_array = [True, False, False, True]\<rparr> ''abc'')
     = Inr [3, 0] \<and>
   snd (check (\<lambda>item seed. seed - 7 * int (length item))
          \<lparr>size_bf = 4, num_hashes = 2, bit_array = [True, False, False, True]\<rparr> ''abc'')
     = Inr True \<and>
   snd (check (\<lambda>item seed. seed - 7 * int (length item))
          \<lparr>size_bf = 4, num_hashes = 2, bit_array = [True, False, False, True]\<rparr> ''ab'')
     = Inr False"
proof -
  let ?h = "\<lambda>item seed. seed - 7 * int (length item)"
  let ?bf = "\<lparr>size_bf = 4, num_hashes = 2, bit_array = [True, False, False, True]\<rparr>"
  have v: "valid ?bf" by (simp add: valid_def)
  have r: "py_range 2 = [0, 1]" by (simp add: py_range_def upto.simps)
  have i1: "indices ?h ?bf ''abc'' = [3, 0]" by (simp add: indices_def r)
  have i2: "indices ?h ?bf ''ab'' = [2, 3]" by (simp add: indices_def r)
  show ?thesis
    using v check_iff_all_set [OF v, of ?h "''abc''"] check_iff_all_set [OF v, of ?h "''ab''"]
    by (simp add: i1 i2)
qed

text \<open>
  Claim C4 (classification algorithm) at the list \<^verbatim>\<open>[["abc"]]\<close>. The element is
  not a \<^verbatim>\<open>str\<close>, so the first branch is taken, and storing the status under a key
  that is not hashable raises \<open>TypeError\<close>: no status is recorded. The filter is
  left as it was. For every element that is hashable the loop body does what the
  claim says (\<open>classify_step_invalid\<close>, \<open>classify_step_used\<close>,
  \<open>classify_step_unique\<close>).
\<close>

theorem unhashable_not_recorded:
  "check_password_uniqueness h bf [PyList [PyStr ''abc'']] = (bf, Inl TypeError)"
  by (simp add: check_password_uniqueness_def classify_step_unhashable)

theorem unhashable_not_recorded_witness:
  "check_password_uniqueness (\<lambda>item seed. seed - 7 * int (length item))
     \<lparr>size_bf = 4, num_hashes = 2, bit_array = [False, False, False, False]\<rparr>
     [PyList [PyStr ''abc'']]
   = (\<lparr>size_bf = 4, num_hashes = 2, bit_array = [False, False, False, False]\<rparr>, Inl TypeError)"
  using unhashable_not_recorded [of "\<lambda>item seed. seed - 7 * int (length item)"
      "\<lparr>size_bf = 4, num_hashes = 2, bit_array = [False, False, False, False]\<rparr>"]
  by simp

text \<open>
  Claim C5 (monotonicity). Along every sequence of calls of \<^verbatim>\<open>add\<close>,
  \<^verbatim>\<open>check\<close> and \<^verbatim>\<open>check_password_uniqueness\<close> the set of positions whose bit
  is 1 only grows: the positions set after a first part of the sequence are still set
  after the whole sequence, and the length of the bit array, \<^verbatim>\<open>size\<close> and
  \<^verbatim>\<open>num_hashes\<close> stay what they were. This holds from every filter state.
\<close>

theorem bits_never_cleared:
  "set_positions (exec_ops h bf ops1) \<subseteq> set_positions (exec_ops h bf (ops1 @ ops2)) \<and>
   length (bit_array (exec_ops h bf (ops1 @ ops2))) = length (bit_array bf) \<and>
   size_bf (exec_ops h bf (ops1 @ ops2)) = size_bf bf \<and>
   num_hashes (exec_ops h bf (ops1 @ ops2)) = num_hashes bf"
proof -
  have "bits_grow (exec_ops h bf ops1) (exec_ops h bf (ops1 @ ops2))"
    by (simp add: exec_ops_append exec_ops_grows)
  moreover have "bits_grow bf (exec_ops h bf (ops1 @ ops2))"
    by (rule exec_ops_grows)
  ultimately show ?thesis
    by (simp add: bits_grow_positions) (simp add: bits_grow_iff)
qed

theorem bits_never_cleared_witness:
  "set_positions (exec_ops (\<lambda>item seed. seed - 7 * int (length item))
       \<lparr>size_bf = 4, num_hashes = 2, bit_array = [False, True, False, False]\<rparr> [Add ''ab''])
   \<subseteq> set_positions (exec_ops (\<lambda>item seed. seed - 7 * int (length item))
       \<lparr>size_bf = 4, num_hashes = 2, bit_array = [False, True, False, False]\<rparr>
       ([Add ''ab''] @ [Check ''x'', Classify [PyStr ''pw'', PyList []], Add ''abc''])) \<and>
   length (bit_array (exec_ops (\<lambda>item seed. seed - 7 * int (length item))
       \<lparr>size_bf = 4, num_hashes = 2, bit_array = [False, True, False, False]\<rparr>
       ([Add ''ab''] @ [Check ''x'', Classify [PyStr ''pw'', PyList []], Add ''abc'']))) = 4"
  using bits_never_cleared [of "\<lambda>item seed. seed - 7 * int (length item)"
      "\<lparr>size_bf = 4, num_hashes = 2, bit_array = [False, True, False, False]\<rparr>"
      "[Add ''ab'']" "[Check ''x'', Classify [PyStr ''pw'', PyList []], Add ''abc'']"]
  by simp

text \<open>
  Claim C6 (idempotence of \<^verbatim>\<open>add\<close>). Calling \<^verbatim>\<open>add(x)\<close> a second time right
  after the first leaves the filter, and so its bit array, exactly as the first call
  left it. This holds from every filter state.
\<close>

theorem add_idempotent:
  "fst (add h (fst (add h bf x)) x) = fst (add h bf x) \<and>
   bit_array (fst (add h (fst (add h bf x)) x)) = bit_array (fst (add h bf x))"
  by (simp add: add_again)

text \<open>
  The filter of 4 bits after \<^verbatim>\<open>add\<close> of \<open>''ab''\<close>, whose positions are 2 and 3.
\<close>

lemma add_example:
  "add (\<lambda>item seed. seed - 7 * int (length item))
     \<lparr>size_bf = 4, num_hashes = 2, bit_array = [False, True, False, False]\<rparr> ''ab''
   = (\<lparr>size_bf = 4, num_hashes = 2, bit_array = [False, True, True, True]\<rparr>, Inr ())"
  by (simp add: add_def hashes_def py_range_def upto.simps py_mod_def setitem_def py_index_def)

theorem add_idempotent_witness:
  "fst (add (\<lambda>item seed. seed - 7 * int (length item))
          (fst (add (\<lambda>item seed. seed - 7 * int (length item))
                  \<lparr>size_bf = 4, num_hashes = 2, bit_array = [False, True, False, False]\<rparr> ''ab''))
          ''ab'')
     = \<lparr>size_bf = 4, num_hashes = 2, bit_array = [False, True, True, True]\<rparr>"
  using add_idempotent [of "\<lambda>item seed. seed - 7 * int (length item)"
      "\<lparr>size_bf = 4, num_hashes = 2, bit_array = [False, True, False, False]\<rparr>" "''ab''"]
  by (simp add: add_example)

text \<open>
  Claim C7 (hash indices). On a filter with positive \<^verbatim>\<open>size\<close> and
  \<^verbatim>\<open>num_hashes\<close>, and for every hash function (its values may be negative),
  \<^verbatim>\<open>_hashes(item)\<close> returns a list of exactly \<^verbatim>\<open>num_hashes\<close> integers, each at
  least 0 and below \<^verbatim>\<open>size\<close>; \<^verbatim>\<open>add(item)\<close> returns without an exception and
  \<^verbatim>\<open>check(item)\<close> returns a boolean without an exception.
\<close>

theorem hashes_total_in_range:
  "valid bf \<Longrightarrow>
   (\<exists>idxs. hashes h bf item = (bf, Inr idxs) \<and> length idxs = nat (num_hashes bf) \<and>
           list_all (\<lambda>i. 0 \<le> i \<and> i < size_bf bf) idxs) \<and>
   snd (add h bf item) = Inr () \<and>
   (\<exists>b. snd (check h bf item) = Inr b)"
proof -
  assume v: "valid bf"
  have "hashes h bf item = (bf, Inr (indices h bf item))"
    using v by (simp add: hashes_ok valid_def)
  moreover have "length (indices h bf item) = nat (num_hashes bf)"
    by (simp add: indices_def length_py_range)
  moreover have "list_all (\<lambda>i. 0 \<le> i \<and> i < size_bf bf) (indices h bf item)"
    using v indices_range [of bf _ h item] by (simp add: list_all_iff valid_def)
  ultimately show ?thesis
    using v by (auto simp: add_ok check_ok)
qed

text \<open>
  The hash values of \<open>''ab''\<close> are -14 and -13; modulo 4 they are 2 and 3.
\<close>

theorem hashes_total_in_range_witness:
  "valid \<lparr>size_bf = 4, num_hashes = 2, bit_array = [False, True, False, False]\<rparr> \<and>
   hashes (\<lambda>item seed. seed - 7 * int (length item))
     \<lparr>size_bf = 4, num_hashes = 2, bit_array = [False, True, False, False]\<rparr> ''ab''
     = (\<lparr>size_bf = 4, num_hashes = 2, bit_array = [False, True, False, False]\<rparr>, Inr [2, 3]) \<and>
   snd (add (\<lambda>item seed. seed - 7 * int (length item))
     \<lparr>size_bf = 4, num_hashes = 2, bit_array = [False, True, False, False]\<rparr> ''ab'') = Inr () \<and>
   (\<exists>b. snd (check (\<lambda>item seed. seed - 7 * int (length item))
     \<lparr>size_bf = 4, num_hashes = 2, bit_array = [False, True, False, False]\<rparr> ''ab'') = Inr b)"
proof -
  let ?h = "\<lambda>item seed. seed - 7 * int (length item)"
  let ?bf = "\<lparr>size_bf = 4, num_hashes = 2, bit_array = [False, True, False, False]\<rparr>"
  have v: "valid ?bf" by (simp add: valid_def)
  have e: "hashes ?h ?bf ''ab'' = (?bf, Inr [2, 3])"
    by (simp add: hashes_def py_range_def upto.simps py_mod_def)
  show ?thesis
    using v e hashes_total_in_range [OF v, of ?h "''ab''"] by simp
qed

text \<open>
  Claim C8 (invalid candidates are absorbed) at the list
  \<^verbatim>\<open>[None, "", ["abc"], "ok"]\<close>. The third element is not a \<^verbatim>\<open>str\<close>, and storing
  its status raises \<open>TypeError\<close>, since a list is not hashable: the call ends with
  the exception, the entries of the first two elements are lost with the dict, and
  \<^verbatim>\<open>"ok"\<close> is never processed. On the claim's own list
  \<^verbatim>\<open>[None, "", "   ", "ok"]\<close> the call returns the four entries the claim gives
  (\<open>classify_example\<close>).
\<close>

theorem unhashable_candidate_raises:
  "check_password_uniqueness h bf [PyNone, PyStr '''', PyList [PyStr ''abc''], PyStr ''ok'']
     = (bf, Inl TypeError)"
  by (simp add: check_password_uniqueness_def classify_step_unhashable classify_step_invalid
      invalid_password_def strip_def)

theorem unhashable_candidate_raises_witness:
  "check_password_uniqueness (\<lambda>item seed. seed - 7 * int (length item))
     \<lparr>size_bf = 4, num_hashes = 2, bit_array = [False, False, False, False]\<rparr>
     [PyNone, PyStr '''', PyList [PyStr ''abc''], PyStr ''ok'']
   = (\<lparr>size_bf = 4, num_hashes = 2, bit_array = [False, False, False, False]\<rparr>, Inl TypeError)"
  using unhashable_candidate_raises [of "\<lambda>item seed. seed - 7 * int (length item)"
      "\<lparr>size_bf = 4, num_hashes = 2, bit_array = [False, False, False, False]\<rparr>"]
  by simp

text \<open>
  Claim C9 (duplicate within a batch). On a filter just constructed with positive
  \<^verbatim>\<open>size\<close> and \<^verbatim>\<open>num_hashes\<close>, the list \<^verbatim>\<open>["a", "a"]\<close> is processed so: the
  loop body stores \<open>Unique\<close> for the first \<^verbatim>\<open>"a"\<close> and adds it to the filter; on
  that filter and dict it stores \<open>AlreadyUsed\<close> for the second \<^verbatim>\<open>"a"\<close> under the
  same key; the dict returned has the one entry of the second occurrence.
\<close>

theorem within_batch_duplicate:
  assumes "0 < sz" and "0 < nh" and "init p sz nh = Inr bf"
  shows
    "classify_step h bf [] (PyStr ''a'') = (fst (add h bf ''a''), Inr [(PyStr ''a'', Unique)]) \<and>
     classify_step h (fst (add h bf ''a'')) [(PyStr ''a'', Unique)] (PyStr ''a'')
       = (fst (add h bf ''a''), Inr [(PyStr ''a'', AlreadyUsed)]) \<and>
     check_password_uniqueness h bf [PyStr ''a'', PyStr ''a'']
       = (fst (add h bf ''a''), Inr [(PyStr ''a'', AlreadyUsed)])"
proof -
  let ?bf1 = "fst (add h bf ''a'')"
  have v: "valid bf" and z: "list_all Not (bit_array bf)"
    using init_valid [OF assms] by simp_all
  have v1: "valid ?bf1" using v add_grows by (rule bits_grow_valid)
  have a: "strip ''a'' \<noteq> []" by (simp add: strip_def isspace_def)
  have s1: "classify_step h bf [] (PyStr ''a'') = (?bf1, Inr [(PyStr ''a'', Unique)])"
    using classify_step_unique [OF v a, of h "[]"] check_no_bits [OF v z, of h "''a''"] by simp
  have s2: "classify_step h ?bf1 [(PyStr ''a'', Unique)] (PyStr ''a'')
              = (?bf1, Inr [(PyStr ''a'', AlreadyUsed)])"
    using classify_step_used [OF v1 a, of h "[(PyStr ''a'', Unique)]"] check_after_add [OF v, of h "''a''"]
    by simp
  show ?thesis
    by (simp add: check_password_uniqueness_def s1 s2)
qed

theorem within_batch_duplicate_witness:
  "(0::int) < 4 \<and> (0::int) < 2 \<and>
   init \<lparr>ssize_max = 9223372036854775807, mem_bits = 1000000, fresh_bit = (\<lambda>k. True)\<rparr> 4 2
     = Inr \<lparr>size_bf = 4, num_hashes = 2, bit_array = [False, False, False, False]\<rparr> \<and>
   check_password_uniqueness (\<lambda>item seed. seed - 7 * int (length item))
     \<lparr>size_bf = 4, num_hashes = 2, bit_array = [False, False, False, False]\<rparr>
     [PyStr ''a'', PyStr ''a'']
   = (\<lparr>size_bf = 4, num_hashes = 2, bit_array = [False, True, True, False]\<rparr>,
      Inr [(PyStr ''a'', AlreadyUsed)])"
proof -
  let ?h = "\<lambda>item seed. seed - 7 * int (length item)"
  let ?bf = "\<lparr>size_bf = 4, num_hashes = 2, bit_array = [False, False, False, False]\<rparr>"
  let ?p = "\<lparr>ssize_max = 9223372036854775807, mem_bits = 1000000, fresh_bit = (\<lambda>k. True)\<rparr>"
  have i: "init ?p 4 2 = Inr ?bf"
    by (simp add: init_def bitarray_new_def setall_replicate numeral_eq_Suc)
  have a: "fst (add ?h ?bf ''a'')
             = \<lparr>size_bf = 4, num_hashes = 2, bit_array = [False, True, True, False]\<rparr>"
    by (simp add: add_def hashes_def py_range_def upto.simps py_mod_def setitem_def py_index_def)
  show ?thesis
    using i a within_batch_duplicate [of 4 2 ?p ?bf ?h] by simp
qed

text \<open>
  Claim C10 (the query is read-only). \<^verbatim>\<open>check(item)\<close> and \<^verbatim>\<open>_hashes(item)\<close>
  leave the filter as it was (\<^verbatim>\<open>size\<close>, \<^verbatim>\<open>num_hashes\<close> and every bit), from
  every filter state and also when they raise.
\<close>

theorem check_read_only:
  "fst (check h bf item) = bf \<and> fst (hashes h bf item) = bf"
  by (simp add: fst_check fst_hashes)

theorem check_read_only_witness:
  "fst (check (\<lambda>item seed. seed - 7 * int (length item))
     \<lparr>size_bf = 4, num_hashes = 2, bit_array = [False, True, False, False]\<rparr> ''ab'')
     = \<lparr>size_bf = 4, num_hashes = 2, bit_array = [False, True, False, False]\<rparr> \<and>
   fst (check (\<lambda>item seed. seed - 7 * int (length item))
     \<lparr>size_bf = 0, num_hashes = 2, bit_array = []\<rparr> ''ab'')
     = \<lparr>size_bf = 0, num_hashes = 2, bit_array = []\<rparr>"
  using check_read_only [of "\<lambda>item seed. seed - 7 * int (length item)"
      "\<lparr>size_bf = 4, num_hashes = 2, bit_array = [False, True, False, False]\<rparr>" "''ab''"]
    check_read_only [of "\<lambda>item seed. seed - 7 * int (length item)"
      "\<lparr>size_bf = 0, num_hashes = 2, bit_array = []\<rparr>" "''ab''"]
  by simp

end
